theory Spec2Isabelle
  imports Main "HOL-Library.Word"
begin

section \<open>Vectored socket I/O with descriptor passing (unix\_recv\_send\_utils.c)\<close>

text \<open>
  A shallow embedding of \<^verbatim>\<open>src/unix/unix_c/unix_recv_send_utils.c\<close>. C integers are
  \<open>int\<close> with every narrowing conversion written out (LP64: \<^verbatim>\<open>int\<close> has 32 bits,
  \<^verbatim>\<open>long\<close>, \<^verbatim>\<open>size_t\<close> and \<^verbatim>\<open>ssize_t\<close> have 64). OCaml lists are HOL lists
  (\<^verbatim>\<open>Is_block(list)\<close> is the test for a cons cell, \<^verbatim>\<open>Field(list, 0)\<close> its head and
  \<^verbatim>\<open>Field(list, 1)\<close> its tail) and OCaml tuples are HOL tuples. C memory is explicit:
  the array of \<^verbatim>\<open>struct iovec\<close> is a store indexed by slot, so that \<^verbatim>\<open>iovs++\<close> is
  \<open>Suc\<close>, and the bytes of the buffers are a separate store indexed by address.
\<close>

subsection \<open>C conversions\<close>

definition to_int :: "int \<Rightarrow> int" where
  \<comment> \<open>conversion of a 64-bit value to \<^verbatim>\<open>int\<close>: the low 32 bits, read as two's complement\<close>
  "to_int v = (v + 2 ^ 31) mod 2 ^ 32 - 2 ^ 31"

definition to_size_t :: "int \<Rightarrow> int" where
  \<comment> \<open>conversion of a signed value to \<^verbatim>\<open>size_t\<close>, and the wrap-around of \<^verbatim>\<open>size_t\<close> arithmetic\<close>
  "to_size_t v = v mod 2 ^ 64"

definition sizeof_int :: int where
  "sizeof_int = 4"

definition Long_val :: "int \<Rightarrow> int" where
  \<comment> \<open>an OCaml \<open>int\<close> read as a C \<^verbatim>\<open>long\<close>: 63 bits always fit\<close>
  "Long_val v = v"

definition Int_val :: "int \<Rightarrow> int" where
  \<comment> \<open>\<^verbatim>\<open>#define Int_val(x) ((int) Long_val(x))\<close>\<close>
  "Int_val v = to_int (Long_val v)"

definition Val_int :: "int \<Rightarrow> int" where
  \<comment> \<open>a C \<^verbatim>\<open>int\<close> as an OCaml \<open>int\<close>: 32 bits always fit\<close>
  "Val_int v = v"

subsection \<open>Buffers and the iovec array\<close>

datatype caml_bytes = Caml_bytes (String_val: int)
  \<comment> \<open>a managed byte sequence; \<^verbatim>\<open>String_val\<close> is the address of its first byte\<close>

datatype caml_ba = Caml_ba (Caml_ba_data_val: int)
  \<comment> \<open>a bigarray; \<^verbatim>\<open>Caml_ba_data_val\<close> is the address of its external data\<close>

record iovec =
  iov_base :: int
  iov_len :: int

record c_memory =
  iovec_mem :: "nat \<Rightarrow> iovec"
  byte_mem :: "int \<Rightarrow> 8 word"

definition mem0 :: c_memory where
  \<comment> \<open>a memory of zeros, for concrete runs\<close>
  "mem0 = \<lparr>iovec_mem = (\<lambda>_. \<lparr>iov_base = 0, iov_len = 0\<rparr>), byte_mem = (\<lambda>_. 0)\<rparr>"

fun store_iovs :: "nat \<Rightarrow> (caml_bytes \<times> int \<times> int) list \<Rightarrow> c_memory \<Rightarrow> c_memory" where
  "store_iovs iovs [] m = m"
| "store_iovs iovs (x # list) m =
     store_iovs (Suc iovs) list
       (m\<lparr>iovec_mem := (iovec_mem m)(iovs :=
            \<lparr>iov_base = String_val (fst x) + Long_val (fst (snd x)),
             iov_len = to_size_t (Long_val (snd (snd x)))\<rparr>)\<rparr>)"

fun bytes_store_iovs :: "nat \<Rightarrow> (caml_ba \<times> int \<times> int) list \<Rightarrow> c_memory \<Rightarrow> c_memory" where
  "bytes_store_iovs iovs [] m = m"
| "bytes_store_iovs iovs (x # list) m =
     bytes_store_iovs (Suc iovs) list
       (m\<lparr>iovec_mem := (iovec_mem m)(iovs :=
            \<lparr>iov_base = Caml_ba_data_val (fst x) + Long_val (fst (snd x)),
             iov_len = to_size_t (Long_val (snd (snd x)))\<rparr>)\<rparr>)"

subsection \<open>Platform constants and macros\<close>

text \<open>
  \<^verbatim>\<open>SOL_SOCKET\<close>, \<^verbatim>\<open>SCM_RIGHTS\<close>, \<^verbatim>\<open>CMSG_LEN\<close> and \<^verbatim>\<open>CMSG_SPACE\<close> come from
  \<^verbatim>\<open><sys/socket.h>\<close>, which is not part of the repository: they are parameters of the
  model. \<open>linux_lp64\<close> gives their values on Linux with 64-bit \<^verbatim>\<open>size_t\<close>, where the
  header \<^verbatim>\<open>struct cmsghdr\<close> takes 16 bytes and payloads are padded to 8.
\<close>

record platform =
  SOL_SOCKET :: int
  SCM_RIGHTS :: int
  CMSG_LEN :: "int \<Rightarrow> int"
  CMSG_SPACE :: "int \<Rightarrow> int"

definition linux_lp64 :: platform where
  "linux_lp64 =
     \<lparr>SOL_SOCKET = 1, SCM_RIGHTS = 1,
      CMSG_LEN = (\<lambda>n. 16 + n),
      CMSG_SPACE = (\<lambda>n. 16 + (n + 7) div 8 * 8)\<rparr>"

subsection \<open>Message headers and ancillary records\<close>

text \<open>
  A control buffer is the sequence of records that \<^verbatim>\<open>CMSG_FIRSTHDR\<close> and
  \<^verbatim>\<open>CMSG_NXTHDR\<close> enumerate in it. The field \<open>cmsg_data\<close> is the \<^verbatim>\<open>int\<close> array at
  \<^verbatim>\<open>CMSG_DATA(cm)\<close>, indexed by slot; it is total, so a read or write past the payload
  lands in a slot of the model rather than in adjacent memory. A buffer that
  \<^verbatim>\<open>memset\<close> has filled with zeros enumerates as one all-zero header.
\<close>

record cmsghdr =
  cmsg_len :: int
  cmsg_level :: int
  cmsg_type :: int
  cmsg_data :: "nat \<Rightarrow> int"

record msghdr =
  msg_name :: int
  msg_namelen :: int
  msg_iov :: nat
  msg_iovlen :: int
  msg_control :: "cmsghdr list option"
  msg_controllen :: int
  msg_flags :: int

definition msghdr_zero :: msghdr where
  \<comment> \<open>\<^verbatim>\<open>memset(&msg, 0, sizeof(msg))\<close>: every field 0, both pointers \<^verbatim>\<open>NULL\<close>\<close>
  "msghdr_zero =
     \<lparr>msg_name = 0, msg_namelen = 0, msg_iov = 0, msg_iovlen = 0,
      msg_control = None, msg_controllen = 0, msg_flags = 0\<rparr>"

definition zero_cmsghdr :: cmsghdr where
  "zero_cmsghdr = \<lparr>cmsg_len = 0, cmsg_level = 0, cmsg_type = 0, cmsg_data = (\<lambda>_. 0)\<rparr>"

definition zeroed_control :: "cmsghdr list" where
  \<comment> \<open>\<^verbatim>\<open>alloca(msg.msg_controllen)\<close> followed by \<^verbatim>\<open>memset(msg.msg_control, 0, ...)\<close>\<close>
  "zeroed_control = [zero_cmsghdr]"

definition cmsgs :: "msghdr \<Rightarrow> cmsghdr list" where
  \<comment> \<open>the records from \<^verbatim>\<open>CMSG_FIRSTHDR(&msg)\<close> on; none when \<^verbatim>\<open>msg_control\<close> is \<^verbatim>\<open>NULL\<close>\<close>
  "cmsgs msg = (case msg_control msg of None \<Rightarrow> [] | Some cs \<Rightarrow> cs)"

subsection \<open>Failures\<close>

datatype error =
  Unix_error int string string
| Not_available string

definition uerror :: "int \<Rightarrow> string \<Rightarrow> error" where
  \<comment> \<open>\<^verbatim>\<open>uerror(cmdname, Nothing)\<close> of the OCaml runtime: raises
      \<open>Unix_error (errno, cmdname, "")\<close>\<close>
  "uerror errno cmdname = Unix_error errno cmdname []"

text \<open>
  Modelled from the spec: \<^verbatim>\<open>lwt_unix_not_available\<close> is declared in \<^verbatim>\<open>lwt_unix.h\<close>
  and defined outside the given sources. It raises the typed "feature not available"
  failure, which carries the name of the feature.
\<close>

definition lwt_unix_not_available :: "string \<Rightarrow> error" where
  "lwt_unix_not_available feature = Not_available feature"

subsection \<open>Receiving\<close>

text \<open>
  The loop \<^verbatim>\<open>for (i = nfds - 1; i >= 0; i--)\<close> of \<^verbatim>\<open>wrapper_recv_msg\<close>, which conses
  \<^verbatim>\<open>fds[i]\<close> onto \<^verbatim>\<open>list\<close>.
\<close>

function collect_fds :: "(nat \<Rightarrow> int) \<Rightarrow> int \<Rightarrow> int list \<Rightarrow> int list" where
  "collect_fds fds i list =
     (if i \<ge> 0 then collect_fds fds (i - 1) (Val_int (fds (nat i)) # list) else list)"
  by pat_completeness auto
termination
  by (relation "measure (\<lambda>(fds, i, list). nat (i + 1))") auto

declare collect_fds.simps [simp del]

definition nfds_of :: "platform \<Rightarrow> cmsghdr \<Rightarrow> int" where
  \<comment> \<open>\<^verbatim>\<open>int nfds = (cm->cmsg_len - CMSG_LEN(0)) / sizeof(int)\<close>, computed in \<^verbatim>\<open>size_t\<close>\<close>
  "nfds_of p cm = to_int (to_size_t (cmsg_len cm - CMSG_LEN p 0) div sizeof_int)"

text \<open>
  The loop over the ancillary records, with its \<^verbatim>\<open>break\<close> after the first record of level
  \<^verbatim>\<open>SOL_SOCKET\<close> and type \<^verbatim>\<open>SCM_RIGHTS\<close>. The start \<^verbatim>\<open>i = nfds - 1\<close> of the inner
  loop is computed in \<^verbatim>\<open>int\<close>: at the least \<^verbatim>\<open>int\<close> it wraps around to the greatest.
\<close>

fun scan_cmsgs :: "platform \<Rightarrow> cmsghdr list \<Rightarrow> int list \<Rightarrow> int list" where
  "scan_cmsgs p [] list = list"
| "scan_cmsgs p (cm # rest) list =
     (if cmsg_level cm = SOL_SOCKET p \<and> cmsg_type cm = SCM_RIGHTS p
      then collect_fds (cmsg_data cm) (to_int (nfds_of p cm - 1)) list
      else scan_cmsgs p rest list)"

text \<open>
  The system calls are parameters. \<open>recvmsg fd msg flags w\<close> returns the call's value,
  the \<^verbatim>\<open>errno\<close> it leaves, the header as the kernel leaves it, and the new state of
  everything outside the function (socket, buffers' bytes, the peer); \<open>sendmsg\<close>
  likewise, without a header. \<open>HAVE_FD_PASSING\<close> is the build flag of \<^verbatim>\<open>lwt_config.h\<close>.
\<close>

definition recv_msghdr :: "platform \<Rightarrow> bool \<Rightarrow> int \<Rightarrow> nat \<Rightarrow> msghdr" where
  \<comment> \<open>lines 70 to 78: the header handed to \<^verbatim>\<open>recvmsg\<close>\<close>
  "recv_msghdr p HAVE_FD_PASSING n_iovs iovs =
     (let msg = msghdr_zero\<lparr>msg_iov := iovs, msg_iovlen := to_size_t n_iovs\<rparr>
      in if HAVE_FD_PASSING
         then msg\<lparr>msg_controllen := CMSG_SPACE p (to_size_t (256 * sizeof_int)),
                  msg_control := Some zeroed_control\<rparr>
         else msg)"

definition wrapper_recv_msg ::
  "platform \<Rightarrow> bool \<Rightarrow> (int \<Rightarrow> msghdr \<Rightarrow> int \<Rightarrow> 'w \<Rightarrow> int \<times> int \<times> msghdr \<times> 'w) \<Rightarrow>
   int \<Rightarrow> int \<Rightarrow> nat \<Rightarrow> 'w \<Rightarrow> (error + int \<times> int list) \<times> 'w" where
  "wrapper_recv_msg p HAVE_FD_PASSING recvmsg fd n_iovs iovs w =
     (case recvmsg fd (recv_msghdr p HAVE_FD_PASSING n_iovs iovs) 0 w of
        (r, errno, msg, w') \<Rightarrow>
          (let ret = to_int r
           in if ret = - 1 then (Inl (uerror errno ''recv_msg''), w')
              else (Inr (Val_int ret,
                         if HAVE_FD_PASSING then scan_cmsgs p (cmsgs msg) [] else []), w')))"

subsection \<open>Sending\<close>

text \<open>
  The loop \<^verbatim>\<open>for (; Is_block(val_fds); val_fds = Field(val_fds, 1), fds++)\<close> of
  \<^verbatim>\<open>wrapper_send_msg\<close>: it runs over the whole list, whatever \<^verbatim>\<open>n_fds\<close> is.
\<close>

fun store_fds :: "int list \<Rightarrow> nat \<Rightarrow> (nat \<Rightarrow> int) \<Rightarrow> (nat \<Rightarrow> int)" where
  "store_fds [] fds d = d"
| "store_fds (v # val_fds) fds d = store_fds val_fds (Suc fds) (d(fds := Int_val v))"

text \<open>
  Lines 119 to 133. The buffer is allocated and filled with zeros, so the header \<open>cm\<close> at
  \<^verbatim>\<open>CMSG_FIRSTHDR(&msg)\<close> starts as the all-zero header; its three fields are assigned
  and the descriptors are stored from \<^verbatim>\<open>CMSG_DATA(cm)\<close> on.
\<close>

definition attach_fds :: "platform \<Rightarrow> int \<Rightarrow> int list \<Rightarrow> msghdr \<Rightarrow> msghdr" where
  "attach_fds p n_fds val_fds msg =
     (if n_fds > 0
      then
        (let cm = zero_cmsghdr
               \<lparr>cmsg_level := SOL_SOCKET p, cmsg_type := SCM_RIGHTS p,
                cmsg_len := CMSG_LEN p (to_size_t (n_fds * sizeof_int))\<rparr>;
             cm' = cm\<lparr>cmsg_data := store_fds val_fds 0 (cmsg_data cm)\<rparr>
         in msg\<lparr>msg_controllen := CMSG_SPACE p (to_size_t (n_fds * sizeof_int)),
                msg_control := Some [cm']\<rparr>)
      else msg)"

definition do_sendmsg ::
  "(int \<Rightarrow> msghdr \<Rightarrow> int \<Rightarrow> 'w \<Rightarrow> int \<times> int \<times> 'w) \<Rightarrow>
   int \<Rightarrow> msghdr \<Rightarrow> 'w \<Rightarrow> (error + int) \<times> 'w" where
  \<comment> \<open>lines 138 to 140\<close>
  "do_sendmsg sendmsg fd msg w =
     (case sendmsg fd msg 0 w of
        (r, errno, w') \<Rightarrow>
          (let ret = to_int r
           in if ret = - 1 then (Inl (uerror errno ''send_msg''), w')
              else (Inr (Val_int ret), w')))"

definition wrapper_send_msg ::
  "platform \<Rightarrow> bool \<Rightarrow> (int \<Rightarrow> msghdr \<Rightarrow> int \<Rightarrow> 'w \<Rightarrow> int \<times> int \<times> 'w) \<Rightarrow>
   int \<Rightarrow> int \<Rightarrow> nat \<Rightarrow> int \<Rightarrow> int list \<Rightarrow> 'w \<Rightarrow> (error + int) \<times> 'w" where
  "wrapper_send_msg p HAVE_FD_PASSING sendmsg fd n_iovs iovs val_n_fds val_fds w =
     (let msg = msghdr_zero\<lparr>msg_iov := iovs, msg_iovlen := to_size_t n_iovs\<rparr>;
          n_fds = Int_val val_n_fds
      in if HAVE_FD_PASSING
         then do_sendmsg sendmsg fd (attach_fds p n_fds val_fds msg) w
         else if n_fds > 0 then (Inl (lwt_unix_not_available ''fd_passing''), w)
         else do_sendmsg sendmsg fd msg w)"

subsection \<open>Concrete kernels, for running the wrappers\<close>

text \<open>
  \<open>kernel_recvmsg r e cs\<close> answers every \<^verbatim>\<open>recvmsg\<close> with the value \<open>r\<close> and \<^verbatim>\<open>errno\<close>
  \<open>e\<close>; where the caller supplied a control buffer it leaves the records \<open>cs\<close> there.
  Its state is the number of calls made. \<open>kernel_sendmsg r e\<close> answers every
  \<^verbatim>\<open>sendmsg\<close> with \<open>r\<close> and \<open>e\<close>; its state is the list of the headers it was handed.
  \<open>rights_cmsg p ds\<close> is the record by which a kernel delivers the descriptors \<open>ds\<close>.
\<close>

definition kernel_recvmsg ::
  "int \<Rightarrow> int \<Rightarrow> cmsghdr list \<Rightarrow>
   int \<Rightarrow> msghdr \<Rightarrow> int \<Rightarrow> nat \<Rightarrow> int \<times> int \<times> msghdr \<times> nat" where
  "kernel_recvmsg r e cs fd msg flags calls =
     (r, e,
      (case msg_control msg of None \<Rightarrow> msg | Some _ \<Rightarrow> msg\<lparr>msg_control := Some cs\<rparr>),
      Suc calls)"

definition kernel_sendmsg ::
  "int \<Rightarrow> int \<Rightarrow>
   int \<Rightarrow> msghdr \<Rightarrow> int \<Rightarrow> msghdr list \<Rightarrow> int \<times> int \<times> msghdr list" where
  "kernel_sendmsg r e fd msg flags sent = (r, e, sent @ [msg])"

definition rights_cmsg :: "platform \<Rightarrow> int list \<Rightarrow> cmsghdr" where
  "rights_cmsg p ds =
     \<lparr>cmsg_len = CMSG_LEN p (int (length ds) * sizeof_int),
      cmsg_level = SOL_SOCKET p, cmsg_type = SCM_RIGHTS p,
      cmsg_data = (\<lambda>i. if i < length ds then ds ! i else 0)\<rparr>"

section \<open>Properties\<close>

subsection \<open>The vector builders\<close>

lemma to_size_t_id: "0 \<le> v \<Longrightarrow> v < 2 ^ 64 \<Longrightarrow> to_size_t v = v"
  by (simp add: to_size_t_def)

lemma store_iovs_byte_mem: "byte_mem (store_iovs p l m) = byte_mem m"
  by (induction l arbitrary: p m) simp_all

lemma store_iovs_outside:
  "j < p \<or> p + length l \<le> j \<Longrightarrow> iovec_mem (store_iovs p l m) j = iovec_mem m j"
  by (induction l arbitrary: p m) auto

lemma store_iovs_slot:
  "i < length l \<Longrightarrow>
   iovec_mem (store_iovs p l m) (p + i) =
     \<lparr>iov_base = String_val (fst (l ! i)) + fst (snd (l ! i)),
      iov_len = to_size_t (snd (snd (l ! i)))\<rparr>"
proof (induction l arbitrary: p m i)
  case Nil
  then show ?case by simp
next
  case (Cons x l)
  show ?case
  proof (cases i)
    case 0
    then show ?thesis by (simp add: store_iovs_outside Long_val_def)
  next
    case (Suc k)
    with Cons.prems have "k < length l" by simp
    from Cons.IH [OF this, of "Suc p"] Suc show ?thesis by simp
  qed
qed

lemma bytes_store_iovs_byte_mem: "byte_mem (bytes_store_iovs p l m) = byte_mem m"
  by (induction l arbitrary: p m) simp_all

lemma bytes_store_iovs_outside:
  "j < p \<or> p + length l \<le> j \<Longrightarrow> iovec_mem (bytes_store_iovs p l m) j = iovec_mem m j"
  by (induction l arbitrary: p m) auto

lemma bytes_store_iovs_slot:
  "i < length l \<Longrightarrow>
   iovec_mem (bytes_store_iovs p l m) (p + i) =
     \<lparr>iov_base = Caml_ba_data_val (fst (l ! i)) + fst (snd (l ! i)),
      iov_len = to_size_t (snd (snd (l ! i)))\<rparr>"
proof (induction l arbitrary: p m i)
  case Nil
  then show ?case by simp
next
  case (Cons x l)
  show ?case
  proof (cases i)
    case 0
    then show ?thesis by (simp add: bytes_store_iovs_outside Long_val_def)
  next
    case (Suc k)
    with Cons.prems have "k < length l" by simp
    from Cons.IH [OF this, of "Suc p"] Suc show ?thesis by simp
  qed
qed

text \<open>
  Claim C1. For every sequence of buffer descriptors whose lengths are non-negative sizes,
  of either storage kind, the builder (\<open>store_iovs\<close> for managed byte sequences,
  \<open>bytes_store_iovs\<close> for external flat buffers) writes one entry per descriptor into
  the output array, in the order of the input: slot \<open>i\<close> after the start holds the base
  address of the \<open>i\<close>-th descriptor's region plus its offset, and its length unchanged.
  Every other slot of the array keeps its content, and no byte of any buffer changes.
\<close>

theorem vector_builders_entry_per_descriptor:
  assumes "\<forall>x \<in> set l. 0 \<le> snd (snd x) \<and> snd (snd x) < 2 ^ 64"
    and "\<forall>x \<in> set b. 0 \<le> snd (snd x) \<and> snd (snd x) < 2 ^ 64"
  shows "(\<forall>i < length l. iovec_mem (store_iovs p l m) (p + i) =
            \<lparr>iov_base = String_val (fst (l ! i)) + fst (snd (l ! i)),
             iov_len = snd (snd (l ! i))\<rparr>)
       \<and> (\<forall>j. j < p \<or> p + length l \<le> j \<longrightarrow>
            iovec_mem (store_iovs p l m) j = iovec_mem m j)
       \<and> byte_mem (store_iovs p l m) = byte_mem m
       \<and> (\<forall>i < length b. iovec_mem (bytes_store_iovs q b m) (q + i) =
            \<lparr>iov_base = Caml_ba_data_val (fst (b ! i)) + fst (snd (b ! i)),
             iov_len = snd (snd (b ! i))\<rparr>)
       \<and> (\<forall>j. j < q \<or> q + length b \<le> j \<longrightarrow>
            iovec_mem (bytes_store_iovs q b m) j = iovec_mem m j)
       \<and> byte_mem (bytes_store_iovs q b m) = byte_mem m"
proof -
  have len_l: "to_size_t (snd (snd (l ! i))) = snd (snd (l ! i))" if "i < length l" for i
  proof -
    from that have "l ! i \<in> set l" by simp
    with assms(1) show ?thesis by (simp add: to_size_t_id)
  qed
  have len_b: "to_size_t (snd (snd (b ! i))) = snd (snd (b ! i))" if "i < length b" for i
  proof -
    from that have "b ! i \<in> set b" by simp
    with assms(2) show ?thesis by (simp add: to_size_t_id)
  qed
  have "\<forall>i < length l. iovec_mem (store_iovs p l m) (p + i) =
            \<lparr>iov_base = String_val (fst (l ! i)) + fst (snd (l ! i)),
             iov_len = snd (snd (l ! i))\<rparr>"
    by (simp add: store_iovs_slot len_l)
  moreover have "\<forall>j. j < p \<or> p + length l \<le> j \<longrightarrow>
            iovec_mem (store_iovs p l m) j = iovec_mem m j"
    using store_iovs_outside by blast
  moreover have "\<forall>i < length b. iovec_mem (bytes_store_iovs q b m) (q + i) =
            \<lparr>iov_base = Caml_ba_data_val (fst (b ! i)) + fst (snd (b ! i)),
             iov_len = snd (snd (b ! i))\<rparr>"
    by (simp add: bytes_store_iovs_slot len_b)
  moreover have "\<forall>j. j < q \<or> q + length b \<le> j \<longrightarrow>
            iovec_mem (bytes_store_iovs q b m) j = iovec_mem m j"
    using bytes_store_iovs_outside by blast
  ultimately show ?thesis
    by (simp only: store_iovs_byte_mem bytes_store_iovs_byte_mem simp_thms)
qed

theorem vector_builders_entry_per_descriptor_witness:
  "iovec_mem (store_iovs 3 [(Caml_bytes 4096, 8, 16), (Caml_bytes 8192, 0, 3)] mem0) 3
     = \<lparr>iov_base = 4104, iov_len = 16\<rparr>
   \<and> iovec_mem (store_iovs 3 [(Caml_bytes 4096, 8, 16), (Caml_bytes 8192, 0, 3)] mem0) 4
     = \<lparr>iov_base = 8192, iov_len = 3\<rparr>
   \<and> iovec_mem (store_iovs 3 [(Caml_bytes 4096, 8, 16), (Caml_bytes 8192, 0, 3)] mem0) 5
     = iovec_mem mem0 5
   \<and> iovec_mem (bytes_store_iovs 0 [(Caml_ba 65536, 2, 5)] mem0) 0
     = \<lparr>iov_base = 65538, iov_len = 5\<rparr>
   \<and> byte_mem (bytes_store_iovs 0 [(Caml_ba 65536, 2, 5)] mem0) = byte_mem mem0"
proof -
  let ?l = "[(Caml_bytes 4096, 8 :: int, 16 :: int), (Caml_bytes 8192, 0, 3)]"
  let ?b = "[(Caml_ba 65536, 2 :: int, 5 :: int)]"
  have hl: "\<forall>x \<in> set ?l. 0 \<le> snd (snd x) \<and> snd (snd x) < 2 ^ 64" by simp
  have hb: "\<forall>x \<in> set ?b. 0 \<le> snd (snd x) \<and> snd (snd x) < 2 ^ 64" by simp
  note t = vector_builders_entry_per_descriptor [OF hl hb, of 3 mem0 0]
  from t have s: "\<forall>i < length ?l. iovec_mem (store_iovs 3 ?l mem0) (3 + i) =
            \<lparr>iov_base = String_val (fst (?l ! i)) + fst (snd (?l ! i)),
             iov_len = snd (snd (?l ! i))\<rparr>"
    by (rule conjunct1)
  from s [rule_format, of 0] have a0: "iovec_mem (store_iovs 3 ?l mem0) 3
     = \<lparr>iov_base = 4104, iov_len = 16\<rparr>" by simp
  from s [rule_format, of 1] have a1: "iovec_mem (store_iovs 3 ?l mem0) 4
     = \<lparr>iov_base = 8192, iov_len = 3\<rparr>" by simp
  from t have a2: "iovec_mem (store_iovs 3 ?l mem0) 5 = iovec_mem mem0 5" by simp
  from t have sb: "\<forall>i < length ?b. iovec_mem (bytes_store_iovs 0 ?b mem0) (0 + i) =
            \<lparr>iov_base = Caml_ba_data_val (fst (?b ! i)) + fst (snd (?b ! i)),
             iov_len = snd (snd (?b ! i))\<rparr>"
    by (elim conjE)
  from sb [rule_format, of 0] have a3: "iovec_mem (bytes_store_iovs 0 ?b mem0) 0
     = \<lparr>iov_base = 65538, iov_len = 5\<rparr>" by simp
  from t have a4: "byte_mem (bytes_store_iovs 0 ?b mem0) = byte_mem mem0"
    by (elim conjE)
  from a0 a1 a2 a3 a4 show ?thesis by (simp only: simp_thms)
qed

subsection \<open>Conversions and loops\<close>

lemma to_int_id: "- (2 ^ 31) \<le> v \<Longrightarrow> v < 2 ^ 31 \<Longrightarrow> to_int v = v"
  by (simp add: to_int_def)

lemma Int_val_id: "- (2 ^ 31) \<le> v \<Longrightarrow> v < 2 ^ 31 \<Longrightarrow> Int_val v = v"
  by (simp add: Int_val_def Long_val_def to_int_id)

lemma Int_val_length: "length (xs :: 'a list) < 2 ^ 31 \<Longrightarrow> Int_val (int (length xs)) = int (length xs)"
  by (rule Int_val_id) simp_all

lemma collect_fds_eq: "collect_fds fds i list = map fds [0..<nat (i + 1)] @ list"
proof (induction fds i list rule: collect_fds.induct)
  case (1 fds i list)
  show ?case
  proof (cases "0 \<le> i")
    case True
    then have n: "nat (i + 1) = Suc (nat i)" by simp
    from True have "collect_fds fds i list = collect_fds fds (i - 1) (Val_int (fds (nat i)) # list)"
      by (subst collect_fds.simps) simp
    also from 1 True have "\<dots> = map fds [0..<nat (i - 1 + 1)] @ (Val_int (fds (nat i)) # list)"
      by simp
    finally show ?thesis using n by (simp add: Val_int_def)
  next
    case False
    then show ?thesis by (subst collect_fds.simps) simp
  qed
qed

lemma to_int_range: "- (2 ^ 31) \<le> to_int v \<and> to_int v < 2 ^ 31"
proof -
  have "0 \<le> (v + 2 ^ 31) mod 2 ^ 32" by simp
  moreover have "(v + 2 ^ 31) mod 2 ^ 32 < 2 ^ 32" by simp
  ultimately show ?thesis by (simp add: to_int_def)
qed

lemma to_int_pred: "- (2 ^ 31) < n \<Longrightarrow> n < 2 ^ 31 \<Longrightarrow> to_int (n - 1) = n - 1"
  by (rule to_int_id) simp_all

lemma nfds_of_range: "- (2 ^ 31) \<le> nfds_of p cm \<and> nfds_of p cm < 2 ^ 31"
  unfolding nfds_of_def by (rule to_int_range)

lemma loop_start_no_wrap:
  "nfds_of p cm \<noteq> - (2 ^ 31) \<Longrightarrow> to_int (nfds_of p cm - 1) = nfds_of p cm - 1"
  using nfds_of_range [of p cm] by (intro to_int_pred) simp_all

lemma scan_cmsgs_no_match:
  "\<forall>c \<in> set cs. \<not> (cmsg_level c = SOL_SOCKET p \<and> cmsg_type c = SCM_RIGHTS p) \<Longrightarrow>
   scan_cmsgs p cs list = list"
  by (induction cs) auto

lemma scan_cmsgs_first_match:
  "\<forall>c \<in> set pre. \<not> (cmsg_level c = SOL_SOCKET p \<and> cmsg_type c = SCM_RIGHTS p) \<Longrightarrow>
   cmsg_level cm = SOL_SOCKET p \<Longrightarrow> cmsg_type cm = SCM_RIGHTS p \<Longrightarrow>
   scan_cmsgs p (pre @ cm # post) list =
     map (cmsg_data cm) [0..<nat (to_int (nfds_of p cm - 1) + 1)] @ list"
  by (induction pre) (auto simp: collect_fds_eq)

lemma nfds_of_exact:
  assumes "cmsg_len cm = CMSG_LEN p (int n * sizeof_int)"
    and "CMSG_LEN p (int n * sizeof_int) = CMSG_LEN p 0 + int n * sizeof_int"
    and "n < 2 ^ 31"
  shows "nfds_of p cm = int n"
proof -
  have "to_size_t (int n * 4) = int n * 4"
    using assms(3) by (intro to_size_t_id) simp_all
  then have "to_size_t (cmsg_len cm - CMSG_LEN p 0) div sizeof_int = int n"
    using assms(1,2) by (simp add: sizeof_int_def)
  moreover have "to_int (int n) = int n"
    using assms(3) by (intro to_int_id) simp_all
  ultimately show ?thesis by (simp add: nfds_of_def)
qed

lemma nfds_of_bounded:
  assumes "CMSG_LEN p 0 \<le> cmsg_len c" and "cmsg_len c \<le> CMSG_LEN p 0 + 256 * sizeof_int"
  shows "0 \<le> nfds_of p c \<and> nfds_of p c \<le> 256"
proof -
  define d where "d = cmsg_len c - CMSG_LEN p 0"
  from assms have d: "0 \<le> d" "d \<le> 1024" by (simp_all add: d_def sizeof_int_def)
  then have "to_size_t d = d" by (intro to_size_t_id) simp_all
  moreover from d have q: "0 \<le> d div 4" "d div 4 \<le> 256" by simp_all
  then have "to_int (d div 4) = d div 4" by (intro to_int_id) simp_all
  ultimately show ?thesis using q by (simp add: nfds_of_def d_def sizeof_int_def)
qed

lemma scan_cmsgs_bounded:
  assumes "\<forall>c \<in> set cs. CMSG_LEN p 0 \<le> cmsg_len c \<and> cmsg_len c \<le> CMSG_LEN p 0 + 256 * sizeof_int"
  shows "length (scan_cmsgs p cs []) \<le> 256"
  using assms
proof (induction cs)
  case Nil
  then show ?case by simp
next
  case (Cons c cs)
  then have n: "0 \<le> nfds_of p c \<and> nfds_of p c \<le> 256" by (simp add: nfds_of_bounded)
  then have "to_int (nfds_of p c - 1) = nfds_of p c - 1" by (intro to_int_pred) simp_all
  with n Cons show ?case by (simp add: collect_fds_eq nat_le_iff)
qed

lemma nfds_of_linux_rights:
  "length ds < 2 ^ 31 \<Longrightarrow> nfds_of linux_lp64 (rights_cmsg linux_lp64 ds) = int (length ds)"
  by (rule nfds_of_exact) (simp_all add: rights_cmsg_def linux_lp64_def)

lemma scan_linux_rights_first:
  "length ds < 2 ^ 31 \<Longrightarrow>
   scan_cmsgs linux_lp64 (rights_cmsg linux_lp64 ds # rest) [] = ds"
proof -
  assume l: "length ds < 2 ^ 31"
  have "map (cmsg_data (rights_cmsg linux_lp64 ds)) [0..<length ds] = ds"
    by (rule nth_equalityI) (simp_all add: rights_cmsg_def)
  moreover from l have "to_int (int (length ds) - 1) = int (length ds) - 1"
    by (intro to_int_pred) simp_all
  ultimately show ?thesis using l
    by (simp add: collect_fds_eq nfds_of_linux_rights) (simp add: rights_cmsg_def linux_lp64_def)
qed

lemma store_fds_slot:
  "store_fds vs k d i =
     (if k \<le> i \<and> i < k + length vs then Int_val (vs ! (i - k)) else d i)"
proof (induction vs arbitrary: k d i)
  case Nil
  then show ?case by simp
next
  case (Cons v vs)
  show ?case
  proof (cases "i = k")
    case True
    then show ?thesis by (simp add: Cons.IH)
  next
    case False
    then show ?thesis by (auto simp: Cons.IH Suc_diff_le nth_Cons')
  qed
qed

lemma store_fds_payload:
  assumes "\<forall>d \<in> set vs. - (2 ^ 31) \<le> d \<and> d < 2 ^ 31"
  shows "map (store_fds vs 0 d) [0..<length vs] = vs"
proof (rule nth_equalityI)
  show "length (map (store_fds vs 0 d) [0..<length vs]) = length vs" by simp
next
  fix i assume "i < length (map (store_fds vs 0 d) [0..<length vs])"
  then have i: "i < length vs" by simp
  then have "vs ! i \<in> set vs" by simp
  with assms have "Int_val (vs ! i) = vs ! i" by (simp add: Int_val_id)
  with i show "map (store_fds vs 0 d) [0..<length vs] ! i = vs ! i"
    by (simp add: store_fds_slot)
qed

subsection \<open>Receiving descriptors\<close>

text \<open>
  Claim C3. When the first record of level \<^verbatim>\<open>SOL_SOCKET\<close> and type \<^verbatim>\<open>SCM_RIGHTS\<close> of an
  incoming message has the length of \<open>n\<close> descriptors, a successful \<open>wrapper_recv_msg\<close>
  returns the descriptors \<open>d0, ..., d(n-1)\<close> of its payload in ascending index order: the
  first one transmitted is the head of the list. The loop runs from the last index down
  and conses each descriptor onto the list, which gives this order.
\<close>

theorem recv_fds_in_transmitted_order:
  assumes "recvmsg fd (recv_msghdr p True n_iovs iovs) 0 w = (r, errno, msg, w')"
    and "to_int r \<noteq> - 1"
    and "cmsgs msg = pre @ cm # post"
    and "\<forall>c \<in> set pre. \<not> (cmsg_level c = SOL_SOCKET p \<and> cmsg_type c = SCM_RIGHTS p)"
    and "cmsg_level cm = SOL_SOCKET p" and "cmsg_type cm = SCM_RIGHTS p"
    and "cmsg_len cm = CMSG_LEN p (int n * sizeof_int)"
    and "CMSG_LEN p (int n * sizeof_int) = CMSG_LEN p 0 + int n * sizeof_int"
    and "n < 2 ^ 31"
  shows "wrapper_recv_msg p True recvmsg fd n_iovs iovs w =
           (Inr (to_int r, map (cmsg_data cm) [0..<n]), w')"
proof -
  have "nfds_of p cm = int n"
    using assms(7-9) by (rule nfds_of_exact)
  moreover from assms(9) have "to_int (int n - 1) = int n - 1"
    by (intro to_int_pred) simp_all
  ultimately have "scan_cmsgs p (cmsgs msg) [] = map (cmsg_data cm) [0..<n]"
    using assms(3-6) by (simp add: scan_cmsgs_first_match)
  with assms(1,2) show ?thesis
    by (simp add: wrapper_recv_msg_def Val_int_def)
qed

theorem recv_fds_in_transmitted_order_witness:
  "wrapper_recv_msg linux_lp64 True
     (kernel_recvmsg 5 0
        [\<lparr>cmsg_len = 28, cmsg_level = 1, cmsg_type = 2, cmsg_data = (\<lambda>_. 0)\<rparr>,
         rights_cmsg linux_lp64 [7, 8, 9]])
     3 1 0 0
   = (Inr (5, [7, 8, 9]), 1)"
proof -
  let ?other = "\<lparr>cmsg_len = 28, cmsg_level = 1, cmsg_type = 2, cmsg_data = (\<lambda>_. 0)\<rparr>"
  let ?cm = "rights_cmsg linux_lp64 [7, 8, 9]"
  let ?k = "kernel_recvmsg 5 0 [?other, ?cm]"
  let ?msg = "(recv_msghdr linux_lp64 True 1 0)\<lparr>msg_control := Some [?other, ?cm]\<rparr>"
  have 1: "?k 3 (recv_msghdr linux_lp64 True 1 0) 0 0 = (5, 0, ?msg, 1)"
    by (simp add: kernel_recvmsg_def recv_msghdr_def)
  have 2: "to_int 5 \<noteq> - 1" by (simp add: to_int_def)
  have 3: "cmsgs ?msg = [?other] @ ?cm # []" by (simp add: cmsgs_def)
  have 4: "\<forall>c \<in> set [?other]. \<not> (cmsg_level c = SOL_SOCKET linux_lp64 \<and> cmsg_type c = SCM_RIGHTS linux_lp64)"
    by (simp add: linux_lp64_def)
  have 5: "cmsg_level ?cm = SOL_SOCKET linux_lp64" by (simp add: rights_cmsg_def)
  have 6: "cmsg_type ?cm = SCM_RIGHTS linux_lp64" by (simp add: rights_cmsg_def)
  have 7: "cmsg_len ?cm = CMSG_LEN linux_lp64 (int 3 * sizeof_int)" by (simp add: rights_cmsg_def)
  have 8: "CMSG_LEN linux_lp64 (int 3 * sizeof_int) = CMSG_LEN linux_lp64 0 + int 3 * sizeof_int"
    by (simp add: linux_lp64_def)
  have 9: "(3::nat) < 2 ^ 31" by simp
  have "map (cmsg_data ?cm) [0..<3] = [7, 8, 9]"
    by (simp add: rights_cmsg_def upt_rec)
  with recv_fds_in_transmitted_order
         [where recvmsg = ?k and fd = 3 and p = linux_lp64 and n_iovs = 1 and iovs = 0
            and w = 0 and pre = "[?other]" and cm = ?cm and post = "[]" and n = 3,
          OF 1 2 3 4 5 6 7 8 9]
  show ?thesis by (simp add: to_int_def)
qed

text \<open>
  Claim C4. The descriptors that a successful \<open>wrapper_recv_msg\<close> returns are those of the
  first record of level \<^verbatim>\<open>SOL_SOCKET\<close> and type \<^verbatim>\<open>SCM_RIGHTS\<close> met in the scan: the slots
  of its payload from index 0 up to the start \<^verbatim>\<open>nfds - 1\<close> of the loop, which is computed
  in \<^verbatim>\<open>int\<close>. Unless \<^verbatim>\<open>nfds\<close> is the least \<^verbatim>\<open>int\<close>, these are as many descriptors as the
  length of that record says. The records after it, of this type or another, have no
  effect on the result: the scan stops at the first match.
\<close>

theorem recv_only_first_rights_record:
  assumes "recvmsg fd (recv_msghdr p True n_iovs iovs) 0 w = (r, errno, msg, w')"
    and "to_int r \<noteq> - 1"
    and "cmsgs msg = pre @ cm # post"
    and "\<forall>c \<in> set pre. \<not> (cmsg_level c = SOL_SOCKET p \<and> cmsg_type c = SCM_RIGHTS p)"
    and "cmsg_level cm = SOL_SOCKET p" and "cmsg_type cm = SCM_RIGHTS p"
  shows "wrapper_recv_msg p True recvmsg fd n_iovs iovs w =
           (Inr (to_int r,
                 map (cmsg_data cm) [0..<nat (to_int (nfds_of p cm - 1) + 1)]), w')
       \<and> (nfds_of p cm \<noteq> - (2 ^ 31) \<longrightarrow>
            wrapper_recv_msg p True recvmsg fd n_iovs iovs w =
              (Inr (to_int r, map (cmsg_data cm) [0..<nat (nfds_of p cm)]), w'))"
proof -
  from assms(3-6)
  have "scan_cmsgs p (cmsgs msg) [] =
          map (cmsg_data cm) [0..<nat (to_int (nfds_of p cm - 1) + 1)]"
    by (simp add: scan_cmsgs_first_match)
  with assms(1,2)
  have "wrapper_recv_msg p True recvmsg fd n_iovs iovs w =
           (Inr (to_int r,
                 map (cmsg_data cm) [0..<nat (to_int (nfds_of p cm - 1) + 1)]), w')"
    by (simp add: wrapper_recv_msg_def Val_int_def)
  then show ?thesis by (simp add: loop_start_no_wrap)
qed

theorem recv_only_first_rights_record_witness:
  "wrapper_recv_msg linux_lp64 True
     (kernel_recvmsg 5 0 [rights_cmsg linux_lp64 [7, 8], rights_cmsg linux_lp64 [11]])
     3 1 0 0
   = (Inr (5, [7, 8]), 1)"
proof -
  let ?cm = "rights_cmsg linux_lp64 [7, 8]"
  let ?cm2 = "rights_cmsg linux_lp64 [11]"
  let ?k = "kernel_recvmsg 5 0 [?cm, ?cm2]"
  let ?msg = "(recv_msghdr linux_lp64 True 1 0)\<lparr>msg_control := Some [?cm, ?cm2]\<rparr>"
  have 1: "?k 3 (recv_msghdr linux_lp64 True 1 0) 0 0 = (5, 0, ?msg, 1)"
    by (simp add: kernel_recvmsg_def recv_msghdr_def)
  have 2: "to_int 5 \<noteq> - 1" by (simp add: to_int_def)
  have 3: "cmsgs ?msg = [] @ ?cm # [?cm2]" by (simp add: cmsgs_def)
  have 4: "\<forall>c \<in> set []. \<not> (cmsg_level c = SOL_SOCKET linux_lp64 \<and> cmsg_type c = SCM_RIGHTS linux_lp64)"
    by simp
  have 5: "cmsg_level ?cm = SOL_SOCKET linux_lp64" by (simp add: rights_cmsg_def)
  have 6: "cmsg_type ?cm = SCM_RIGHTS linux_lp64" by (simp add: rights_cmsg_def)
  have n: "nfds_of linux_lp64 ?cm = 2"
    using nfds_of_linux_rights [of "[7, 8]"] by simp
  have m: "map (cmsg_data ?cm) [0..<2] = [7, 8]"
    by (simp add: rights_cmsg_def upt_rec)
  from recv_only_first_rights_record
         [where recvmsg = ?k and fd = 3 and p = linux_lp64 and n_iovs = 1 and iovs = 0
            and w = 0 and pre = "[]" and cm = ?cm and post = "[?cm2]",
          OF 1 2 3 4 5 6]
  have "nfds_of linux_lp64 ?cm \<noteq> - (2 ^ 31) \<longrightarrow>
          wrapper_recv_msg linux_lp64 True ?k 3 1 0 0 =
            (Inr (to_int 5, map (cmsg_data ?cm) [0..<nat (nfds_of linux_lp64 ?cm)]), 1)"
    by (rule conjunct2)
  with n m show ?thesis by (simp add: to_int_def)
qed

text \<open>
  Claim C7. On a build without \<^verbatim>\<open>HAVE_FD_PASSING\<close>, \<open>wrapper_recv_msg\<close> makes the
  \<^verbatim>\<open>recvmsg\<close> call on the caller's descriptor with flags 0 and a header that carries the
  caller's vector, \<^verbatim>\<open>msg_iov\<close> and its count \<^verbatim>\<open>msg_iovlen\<close>, and nothing else: no control
  buffer, every other field 0. When that call succeeds, the wrapper returns the byte
  count of the call with the empty descriptor list, whatever header the kernel leaves
  behind, and the outside state is the one the call leaves.
\<close>

theorem recv_without_fd_passing:
  assumes "recvmsg fd
             \<lparr>msg_name = 0, msg_namelen = 0, msg_iov = iovs, msg_iovlen = n_iovs,
              msg_control = None, msg_controllen = 0, msg_flags = 0\<rparr> 0 w
           = (r, errno, msg, w')"
    and "0 \<le> n_iovs" and "n_iovs < 2 ^ 31"
    and "- (2 ^ 31) \<le> r" and "r < 2 ^ 31" and "r \<noteq> - 1"
  shows "wrapper_recv_msg p False recvmsg fd n_iovs iovs w = (Inr (r, []), w')
       \<and> recv_msghdr p False n_iovs iovs =
           \<lparr>msg_name = 0, msg_namelen = 0, msg_iov = iovs, msg_iovlen = n_iovs,
            msg_control = None, msg_controllen = 0, msg_flags = 0\<rparr>
       \<and> msg_control (recv_msghdr p False n_iovs iovs) = None
       \<and> msg_controllen (recv_msghdr p False n_iovs iovs) = 0"
proof -
  from assms(2,3) have "to_size_t n_iovs = n_iovs"
    by (intro to_size_t_id) simp_all
  then have h: "recv_msghdr p False n_iovs iovs =
           \<lparr>msg_name = 0, msg_namelen = 0, msg_iov = iovs, msg_iovlen = n_iovs,
            msg_control = None, msg_controllen = 0, msg_flags = 0\<rparr>"
    by (simp add: recv_msghdr_def msghdr_zero_def)
  from assms(4,5) have "to_int r = r" by (rule to_int_id)
  with assms(1,6)
  have "wrapper_recv_msg p False recvmsg fd n_iovs iovs w = (Inr (r, []), w')"
    unfolding wrapper_recv_msg_def h by (simp add: Val_int_def)
  with h show ?thesis by simp
qed

theorem recv_without_fd_passing_witness:
  "wrapper_recv_msg linux_lp64 False
     (kernel_recvmsg 5 0 [rights_cmsg linux_lp64 [7, 8]]) 3 2 6 0 = (Inr (5, []), 1)
   \<and> msg_iov (recv_msghdr linux_lp64 False 2 6) = 6
   \<and> msg_iovlen (recv_msghdr linux_lp64 False 2 6) = 2
   \<and> msg_control (recv_msghdr linux_lp64 False 2 6) = None"
proof -
  let ?k = "kernel_recvmsg 5 0 [rights_cmsg linux_lp64 [7, 8]]"
  let ?h = "\<lparr>msg_name = 0, msg_namelen = 0, msg_iov = 6, msg_iovlen = 2,
             msg_control = None, msg_controllen = 0, msg_flags = 0\<rparr>"
  have 1: "?k 3 ?h 0 0 = (5, 0, ?h, 1)"
    by (simp add: kernel_recvmsg_def)
  have 2: "(0::int) \<le> 2" by simp
  have 3: "(2::int) < 2 ^ 31" by simp
  have 4: "- (2 ^ 31) \<le> (5::int)" by simp
  have 5: "(5::int) < 2 ^ 31" by simp
  have 6: "(5::int) \<noteq> - 1" by simp
  from recv_without_fd_passing
         [where recvmsg = ?k and fd = 3 and p = linux_lp64 and n_iovs = 2 and iovs = 6
            and w = 0, OF 1 2 3 4 5 6]
  show ?thesis by simp
qed

text \<open>
  Claim C10. On a build with \<^verbatim>\<open>HAVE_FD_PASSING\<close>, the header that \<open>wrapper_recv_msg\<close>
  hands to \<^verbatim>\<open>recvmsg\<close> carries the caller's vector and a control buffer of
  \<^verbatim>\<open>CMSG_SPACE(256 * sizeof(int))\<close> bytes filled with zeros: the header found in it has
  length, level and type 0, and every slot of its payload is 0. When that capacity is
  no more than a record header plus 256 descriptors, and every record that the kernel
  delivers has at least the length of a header and fits in the buffer, a successful
  call returns at most 256 descriptors.
\<close>

theorem recv_control_capacity:
  assumes "recvmsg fd (recv_msghdr p True n_iovs iovs) 0 w = (r, errno, msg, w')"
    and "to_int r \<noteq> - 1"
    and "\<forall>c \<in> set (cmsgs msg). CMSG_LEN p 0 \<le> cmsg_len c
           \<and> cmsg_len c \<le> msg_controllen (recv_msghdr p True n_iovs iovs)"
    and "CMSG_SPACE p (256 * sizeof_int) \<le> CMSG_LEN p 0 + 256 * sizeof_int"
  shows "msg_controllen (recv_msghdr p True n_iovs iovs) = CMSG_SPACE p (256 * sizeof_int)
       \<and> msg_control (recv_msghdr p True n_iovs iovs) = Some zeroed_control
       \<and> recv_msghdr p True n_iovs iovs =
           \<lparr>msg_name = 0, msg_namelen = 0, msg_iov = iovs, msg_iovlen = to_size_t n_iovs,
            msg_control =
              Some [\<lparr>cmsg_len = 0, cmsg_level = 0, cmsg_type = 0, cmsg_data = (\<lambda>_. 0)\<rparr>],
            msg_controllen = CMSG_SPACE p (256 * sizeof_int), msg_flags = 0\<rparr>
       \<and> fst (wrapper_recv_msg p True recvmsg fd n_iovs iovs w) =
           Inr (to_int r, scan_cmsgs p (cmsgs msg) [])
       \<and> length (scan_cmsgs p (cmsgs msg) []) \<le> 256"
proof -
  have cap: "msg_controllen (recv_msghdr p True n_iovs iovs) = CMSG_SPACE p (256 * sizeof_int)"
    by (simp add: recv_msghdr_def to_size_t_def sizeof_int_def)
  have "\<forall>c \<in> set (cmsgs msg). CMSG_LEN p 0 \<le> cmsg_len c
           \<and> cmsg_len c \<le> CMSG_LEN p 0 + 256 * sizeof_int"
    using assms(3,4) unfolding cap by fastforce
  then have "length (scan_cmsgs p (cmsgs msg) []) \<le> 256"
    by (rule scan_cmsgs_bounded)
  moreover have "msg_control (recv_msghdr p True n_iovs iovs) = Some zeroed_control"
    by (simp add: recv_msghdr_def)
  moreover have "recv_msghdr p True n_iovs iovs =
           \<lparr>msg_name = 0, msg_namelen = 0, msg_iov = iovs, msg_iovlen = to_size_t n_iovs,
            msg_control =
              Some [\<lparr>cmsg_len = 0, cmsg_level = 0, cmsg_type = 0, cmsg_data = (\<lambda>_. 0)\<rparr>],
            msg_controllen = CMSG_SPACE p (256 * sizeof_int), msg_flags = 0\<rparr>"
    by (simp add: recv_msghdr_def msghdr_zero_def zeroed_control_def zero_cmsghdr_def
        to_size_t_def sizeof_int_def)
  moreover have "fst (wrapper_recv_msg p True recvmsg fd n_iovs iovs w) =
           Inr (to_int r, scan_cmsgs p (cmsgs msg) [])"
    using assms(1,2) by (simp add: wrapper_recv_msg_def Val_int_def)
  ultimately show ?thesis using cap by simp
qed

theorem recv_control_capacity_witness:
  "msg_controllen (recv_msghdr linux_lp64 True 1 0) = 1040
   \<and> msg_control (recv_msghdr linux_lp64 True 1 0) =
       Some [\<lparr>cmsg_len = 0, cmsg_level = 0, cmsg_type = 0, cmsg_data = (\<lambda>_. 0)\<rparr>]
   \<and> fst (wrapper_recv_msg linux_lp64 True
            (kernel_recvmsg 5 0 [rights_cmsg linux_lp64 [7, 8]]) 3 1 0 0) = Inr (5, [7, 8])
   \<and> length [7 :: int, 8] \<le> 256"
proof -
  let ?cm = "rights_cmsg linux_lp64 [7, 8]"
  let ?k = "kernel_recvmsg 5 0 [?cm]"
  let ?msg = "(recv_msghdr linux_lp64 True 1 0)\<lparr>msg_control := Some [?cm]\<rparr>"
  have 1: "?k 3 (recv_msghdr linux_lp64 True 1 0) 0 0 = (5, 0, ?msg, 1)"
    by (simp add: kernel_recvmsg_def recv_msghdr_def)
  have 2: "to_int 5 \<noteq> - 1" by (simp add: to_int_def)
  have 3: "\<forall>c \<in> set (cmsgs ?msg). CMSG_LEN linux_lp64 0 \<le> cmsg_len c
           \<and> cmsg_len c \<le> msg_controllen (recv_msghdr linux_lp64 True 1 0)"
    by (simp add: cmsgs_def rights_cmsg_def linux_lp64_def recv_msghdr_def sizeof_int_def
        to_size_t_def)
  have 4: "CMSG_SPACE linux_lp64 (256 * sizeof_int) \<le> CMSG_LEN linux_lp64 0 + 256 * sizeof_int"
    by (simp add: linux_lp64_def sizeof_int_def)
  have s: "scan_cmsgs linux_lp64 (cmsgs ?msg) [] = [7, 8]"
    using scan_linux_rights_first [of "[7, 8]" "[]"] by (simp add: cmsgs_def)
  note t = recv_control_capacity
         [where recvmsg = ?k and fd = 3 and p = linux_lp64 and n_iovs = 1 and iovs = 0
            and w = 0, OF 1 2 3 4]
  from t have c: "recv_msghdr linux_lp64 True 1 0 =
           \<lparr>msg_name = 0, msg_namelen = 0, msg_iov = 0, msg_iovlen = to_size_t 1,
            msg_control =
              Some [\<lparr>cmsg_len = 0, cmsg_level = 0, cmsg_type = 0, cmsg_data = (\<lambda>_. 0)\<rparr>],
            msg_controllen = CMSG_SPACE linux_lp64 (256 * sizeof_int), msg_flags = 0\<rparr>"
    by (elim conjE)
  have c': "msg_control (recv_msghdr linux_lp64 True 1 0) =
       Some [\<lparr>cmsg_len = 0, cmsg_level = 0, cmsg_type = 0, cmsg_data = (\<lambda>_. 0)\<rparr>]"
    by (subst c) simp
  from t c' show ?thesis
    unfolding s by (simp add: linux_lp64_def sizeof_int_def to_int_def)
qed

subsection \<open>Sending descriptors\<close>

text \<open>
  Claim C5. On a build without \<^verbatim>\<open>HAVE_FD_PASSING\<close>, where \<open>val_n_fds\<close> is the length of
  the descriptor list, as the caller passes it: with a non-empty list
  \<open>wrapper_send_msg\<close> fails with \<open>Not_available\<close> and leaves the outside state as it was,
  whatever \<^verbatim>\<open>sendmsg\<close> would have done, so the call is not made and no byte is sent; with
  an empty list it makes the call on the plain header, with no control data.
\<close>

theorem send_without_fd_passing:
  assumes "val_n_fds = int (length val_fds)" and "length val_fds < 2 ^ 31"
  shows "(val_fds \<noteq> [] \<longrightarrow>
            wrapper_send_msg p False sendmsg fd n_iovs iovs val_n_fds val_fds w =
              (Inl (Not_available ''fd_passing''), w))
       \<and> (val_fds = [] \<longrightarrow>
            wrapper_send_msg p False sendmsg fd n_iovs iovs val_n_fds val_fds w =
              do_sendmsg sendmsg fd
                (msghdr_zero\<lparr>msg_iov := iovs, msg_iovlen := to_size_t n_iovs\<rparr>) w)"
proof -
  from assms have "Int_val val_n_fds = int (length val_fds)"
    by (simp add: Int_val_length)
  then show ?thesis
    by (simp add: wrapper_send_msg_def lwt_unix_not_available_def)
qed

theorem send_without_fd_passing_witness:
  "wrapper_send_msg linux_lp64 False (kernel_sendmsg 5 0) 3 1 0 2 [7, 8] [] =
     (Inl (Not_available ''fd_passing''), [])
   \<and> wrapper_send_msg linux_lp64 False (kernel_sendmsg 5 0) 3 1 0 0 [] [] =
     (Inr 5, [msghdr_zero\<lparr>msg_iov := 0, msg_iovlen := 1\<rparr>])"
proof -
  have a: "(2::int) = int (length [7 :: int, 8])" by simp
  have b: "length [7 :: int, 8] < 2 ^ 31" by simp
  have c: "(0::int) = int (length ([] :: int list))" by simp
  have d: "length ([] :: int list) < 2 ^ 31" by simp
  from send_without_fd_passing [OF a b, of linux_lp64 "kernel_sendmsg 5 0" 3 1 0 "[]"]
    send_without_fd_passing [OF c d, of linux_lp64 "kernel_sendmsg 5 0" 3 1 0 "[]"]
  show ?thesis
    by (simp add: do_sendmsg_def kernel_sendmsg_def to_int_def Val_int_def to_size_t_def)
qed

text \<open>
  Claim C8. On a build with \<^verbatim>\<open>HAVE_FD_PASSING\<close>, for a non-empty list of \<open>n\<close> descriptors
  (each a C \<^verbatim>\<open>int\<close>, with \<open>val_n_fds\<close> the length of the list), the header that
  \<open>wrapper_send_msg\<close> hands to \<^verbatim>\<open>sendmsg\<close> has a control buffer of
  \<^verbatim>\<open>CMSG_SPACE(n * sizeof(int))\<close> bytes holding exactly one record, of level
  \<^verbatim>\<open>SOL_SOCKET\<close>, type \<^verbatim>\<open>SCM_RIGHTS\<close> and length \<^verbatim>\<open>CMSG_LEN(n * sizeof(int))\<close>, whose
  payload is the \<open>n\<close> descriptors in the order of the list.
\<close>

theorem send_attaches_one_rights_record:
  assumes "val_n_fds = int (length val_fds)" and "val_fds \<noteq> []"
    and "length val_fds < 2 ^ 31"
    and "\<forall>d \<in> set val_fds. - (2 ^ 31) \<le> d \<and> d < 2 ^ 31"
  shows "\<exists>cm. wrapper_send_msg p True sendmsg fd n_iovs iovs val_n_fds val_fds w =
             do_sendmsg sendmsg fd
               (msghdr_zero\<lparr>msg_iov := iovs, msg_iovlen := to_size_t n_iovs,
                  msg_controllen := CMSG_SPACE p (int (length val_fds) * sizeof_int),
                  msg_control := Some [cm]\<rparr>) w
           \<and> cmsg_level cm = SOL_SOCKET p \<and> cmsg_type cm = SCM_RIGHTS p
           \<and> cmsg_len cm = CMSG_LEN p (int (length val_fds) * sizeof_int)
           \<and> map (cmsg_data cm) [0..<length val_fds] = val_fds"
proof -
  let ?n = "int (length val_fds)"
  let ?cm = "zero_cmsghdr
               \<lparr>cmsg_level := SOL_SOCKET p, cmsg_type := SCM_RIGHTS p,
                cmsg_len := CMSG_LEN p (?n * sizeof_int),
                cmsg_data := store_fds val_fds 0 (cmsg_data zero_cmsghdr)\<rparr>"
  from assms(1,3) have n: "Int_val val_n_fds = ?n" by (simp add: Int_val_length)
  from assms(2) have pos: "0 < ?n" by simp
  from assms(3) have "to_size_t (?n * sizeof_int) = ?n * sizeof_int"
    by (intro to_size_t_id) (simp_all add: sizeof_int_def)
  with n pos have "wrapper_send_msg p True sendmsg fd n_iovs iovs val_n_fds val_fds w =
             do_sendmsg sendmsg fd
               (msghdr_zero\<lparr>msg_iov := iovs, msg_iovlen := to_size_t n_iovs,
                  msg_controllen := CMSG_SPACE p (?n * sizeof_int),
                  msg_control := Some [?cm]\<rparr>) w"
    by (simp add: wrapper_send_msg_def attach_fds_def Let_def)
  moreover from assms(4) have "map (cmsg_data ?cm) [0..<length val_fds] = val_fds"
    by (simp add: store_fds_payload)
  ultimately show ?thesis
    by (intro exI [of _ ?cm]) simp
qed

theorem send_attaches_one_rights_record_witness:
  "\<exists>cm. wrapper_send_msg linux_lp64 True (kernel_sendmsg 5 0) 3 1 0 2 [7, 8] [] =
           (Inr 5, [msghdr_zero\<lparr>msg_iov := 0, msg_iovlen := 1, msg_controllen := 24,
                       msg_control := Some [cm]\<rparr>])
       \<and> cmsg_level cm = 1 \<and> cmsg_type cm = 1 \<and> cmsg_len cm = 24
       \<and> map (cmsg_data cm) [0..<2] = [7, 8]"
proof -
  have a: "(2::int) = int (length [7 :: int, 8])" by simp
  have b: "[7 :: int, 8] \<noteq> []" by simp
  have c: "length [7 :: int, 8] < 2 ^ 31" by simp
  have d: "\<forall>d \<in> set [7 :: int, 8]. - (2 ^ 31) \<le> d \<and> d < 2 ^ 31" by simp
  from send_attaches_one_rights_record
         [OF a b c d, of linux_lp64 "kernel_sendmsg 5 0" 3 1 0 "[]"]
  obtain cm where
    "wrapper_send_msg linux_lp64 True (kernel_sendmsg 5 0) 3 1 0 2 [7, 8] [] =
       do_sendmsg (kernel_sendmsg 5 0) 3
         (msghdr_zero\<lparr>msg_iov := 0, msg_iovlen := to_size_t 1,
            msg_controllen := CMSG_SPACE linux_lp64 (int (length [7 :: int, 8]) * sizeof_int),
            msg_control := Some [cm]\<rparr>) []
     \<and> cmsg_level cm = SOL_SOCKET linux_lp64 \<and> cmsg_type cm = SCM_RIGHTS linux_lp64
     \<and> cmsg_len cm = CMSG_LEN linux_lp64 (int (length [7 :: int, 8]) * sizeof_int)
     \<and> map (cmsg_data cm) [0..<length [7 :: int, 8]] = [7, 8]" ..
  then show ?thesis
    by (intro exI [of _ cm])
       (simp add: do_sendmsg_def kernel_sendmsg_def to_int_def Val_int_def to_size_t_def
          linux_lp64_def sizeof_int_def numeral_2_eq_2)
qed

text \<open>
  Claim C9. With an empty descriptor list, on either build, the header that
  \<open>wrapper_send_msg\<close> hands to \<^verbatim>\<open>sendmsg\<close> has no control buffer: \<^verbatim>\<open>msg_control\<close> is
  \<^verbatim>\<open>NULL\<close> and \<^verbatim>\<open>msg_controllen\<close> is 0. And a peer whose \<^verbatim>\<open>recvmsg\<close> succeeds and
  delivers no ancillary record gets the empty descriptor list from \<open>wrapper_recv_msg\<close>.
\<close>

theorem send_empty_fds_no_control:
  assumes "recvmsg fd' (recv_msghdr p H' n_iovs' iovs') 0 v = (r, e, msg, v')"
    and "to_int r \<noteq> - 1" and "cmsgs msg = []"
  shows "wrapper_send_msg p H sendmsg fd n_iovs iovs 0 [] w =
           do_sendmsg sendmsg fd
             (msghdr_zero\<lparr>msg_iov := iovs, msg_iovlen := to_size_t n_iovs\<rparr>) w
       \<and> msg_control (msghdr_zero\<lparr>msg_iov := iovs, msg_iovlen := to_size_t n_iovs\<rparr>) = None
       \<and> msg_controllen (msghdr_zero\<lparr>msg_iov := iovs, msg_iovlen := to_size_t n_iovs\<rparr>) = 0
       \<and> wrapper_recv_msg p H' recvmsg fd' n_iovs' iovs' v = (Inr (to_int r, []), v')"
proof -
  have "Int_val 0 = 0" by (simp add: Int_val_id)
  then have "wrapper_send_msg p H sendmsg fd n_iovs iovs 0 [] w =
           do_sendmsg sendmsg fd
             (msghdr_zero\<lparr>msg_iov := iovs, msg_iovlen := to_size_t n_iovs\<rparr>) w"
    by (simp add: wrapper_send_msg_def attach_fds_def Let_def)
  moreover from assms
  have "wrapper_recv_msg p H' recvmsg fd' n_iovs' iovs' v = (Inr (to_int r, []), v')"
    by (simp add: wrapper_recv_msg_def Val_int_def)
  ultimately show ?thesis by (simp add: msghdr_zero_def)
qed

theorem send_empty_fds_no_control_witness:
  "wrapper_send_msg linux_lp64 True (kernel_sendmsg 5 0) 3 1 0 0 [] [] =
     (Inr 5, [msghdr_zero\<lparr>msg_iov := 0, msg_iovlen := 1\<rparr>])
   \<and> msg_control (msghdr_zero\<lparr>msg_iov := 0, msg_iovlen := 1\<rparr>) = None
   \<and> wrapper_recv_msg linux_lp64 True (kernel_recvmsg 5 0 []) 4 1 0 0 = (Inr (5, []), 1)"
proof -
  let ?k = "kernel_recvmsg 5 0 []"
  let ?msg = "(recv_msghdr linux_lp64 True 1 0)\<lparr>msg_control := Some []\<rparr>"
  have 1: "?k 4 (recv_msghdr linux_lp64 True 1 0) 0 0 = (5, 0, ?msg, 1)"
    by (simp add: kernel_recvmsg_def recv_msghdr_def)
  have 2: "to_int 5 \<noteq> - 1" by (simp add: to_int_def)
  have 3: "cmsgs ?msg = []" by (simp add: cmsgs_def)
  from send_empty_fds_no_control
         [where recvmsg = ?k and fd' = 4 and p = linux_lp64 and H' = True and n_iovs' = 1
            and iovs' = 0 and v = 0 and H = True and sendmsg = "kernel_sendmsg 5 0"
            and fd = 3 and n_iovs = 1 and iovs = 0 and w = "[]", OF 1 2 3]
  show ?thesis
    by (simp add: do_sendmsg_def kernel_sendmsg_def to_int_def Val_int_def to_size_t_def)
qed

subsection \<open>Failures of the system calls\<close>

text \<open>
  Claim C6, as the code has it. For a value of \<^verbatim>\<open>recvmsg\<close> that fits an \<^verbatim>\<open>int\<close>,
  \<open>wrapper_recv_msg\<close> fails exactly when that value is \<open>-1\<close>, and the failure is
  \<open>Unix_error\<close> with the \<^verbatim>\<open>errno\<close> of the call and the name \<^verbatim>\<open>recv_msg\<close>; any other
  value, 0 included, is returned as the byte count of a normal result. Likewise
  \<open>wrapper_send_msg\<close>, once it reaches \<^verbatim>\<open>sendmsg\<close>, fails exactly when the call returns
  \<open>-1\<close>, with the name \<^verbatim>\<open>send_msg\<close>. In both, the outside state is the one
  that the single call leaves: there is no second call.
\<close>

theorem io_failure_iff_syscall_fails:
  assumes "recvmsg fd (recv_msghdr p H n_iovs iovs) 0 w = (r, e, msg, w')"
    and "- (2 ^ 31) \<le> r" and "r < 2 ^ 31"
    and "sendmsg fd' (if H' then attach_fds p (Int_val val_n_fds) val_fds
                                  (msghdr_zero\<lparr>msg_iov := iovs', msg_iovlen := to_size_t n_iovs'\<rparr>)
                      else msghdr_zero\<lparr>msg_iov := iovs', msg_iovlen := to_size_t n_iovs'\<rparr>) 0 v
           = (r', e', v')"
    and "H' \<or> Int_val val_n_fds \<le> 0"
    and "- (2 ^ 31) \<le> r'" and "r' < 2 ^ 31"
  shows "wrapper_recv_msg p H recvmsg fd n_iovs iovs w =
           (if r = - 1 then Inl (Unix_error e ''recv_msg'' [])
            else Inr (r, if H then scan_cmsgs p (cmsgs msg) [] else []), w')
       \<and> wrapper_send_msg p H' sendmsg fd' n_iovs' iovs' val_n_fds val_fds v =
           (if r' = - 1 then Inl (Unix_error e' ''send_msg'' []) else Inr r', v')"
proof -
  from assms(2,3) have r: "to_int r = r" by (rule to_int_id)
  from assms(6,7) have r': "to_int r' = r'" by (rule to_int_id)
  from assms(1) r
  have "wrapper_recv_msg p H recvmsg fd n_iovs iovs w =
           (if r = - 1 then Inl (Unix_error e ''recv_msg'' [])
            else Inr (r, if H then scan_cmsgs p (cmsgs msg) [] else []), w')"
    by (simp add: wrapper_recv_msg_def Val_int_def uerror_def)
  moreover from assms(4,5) r'
  have "wrapper_send_msg p H' sendmsg fd' n_iovs' iovs' val_n_fds val_fds v =
           (if r' = - 1 then Inl (Unix_error e' ''send_msg'' []) else Inr r', v')"
    by (auto simp: wrapper_send_msg_def do_sendmsg_def Val_int_def uerror_def Let_def)
  ultimately show ?thesis by simp
qed

theorem io_failure_iff_syscall_fails_witness:
  "wrapper_recv_msg linux_lp64 True (kernel_recvmsg 0 0 []) 3 1 0 0 = (Inr (0, []), 1)
   \<and> wrapper_send_msg linux_lp64 False (kernel_sendmsg (- 1) 32) 3 1 0 0 [] [] =
       (Inl (Unix_error 32 ''send_msg'' []), [msghdr_zero\<lparr>msg_iov := 0, msg_iovlen := 1\<rparr>])"
proof -
  let ?k = "kernel_recvmsg 0 0 []"
  let ?msg = "(recv_msghdr linux_lp64 True 1 0)\<lparr>msg_control := Some []\<rparr>"
  let ?m0 = "msghdr_zero\<lparr>msg_iov := 0, msg_iovlen := to_size_t 1\<rparr>"
  have 1: "?k 3 (recv_msghdr linux_lp64 True 1 0) 0 0 = (0, 0, ?msg, 1)"
    by (simp add: kernel_recvmsg_def recv_msghdr_def)
  have 2: "- (2 ^ 31) \<le> (0::int)" by simp
  have 3: "(0::int) < 2 ^ 31" by simp
  have 4: "kernel_sendmsg (- 1) 32 3
             (if False then attach_fds linux_lp64 (Int_val 0) [] ?m0 else ?m0) 0 []
           = (- 1, 32, [?m0])"
    by (simp add: kernel_sendmsg_def)
  have 5: "False \<or> Int_val 0 \<le> 0" by (simp add: Int_val_def Long_val_def to_int_def)
  have 6: "- (2 ^ 31) \<le> (- 1 :: int)" by simp
  have 7: "(- 1 :: int) < 2 ^ 31" by simp
  from io_failure_iff_syscall_fails
         [where recvmsg = ?k and fd = 3 and p = linux_lp64 and H = True and n_iovs = 1
            and iovs = 0 and w = 0 and sendmsg = "kernel_sendmsg (- 1) 32" and fd' = 3
            and H' = False and val_n_fds = 0 and val_fds = "[]" and iovs' = 0
            and n_iovs' = 1 and v = "[]", OF 1 2 3 4 5 6 7]
  show ?thesis by (simp add: cmsgs_def to_size_t_def)
qed

text \<open>
  The operation name in the failure is not \<^verbatim>\<open>receive_message\<close>: when \<^verbatim>\<open>recvmsg\<close> returns
  \<open>-1\<close> with \<^verbatim>\<open>errno\<close> 9, the failure raised carries another name.
\<close>

theorem recv_failure_name_counterexample:
  "fst (wrapper_recv_msg linux_lp64 True (kernel_recvmsg (- 1) 9 []) 3 1 0 0)
     = Inl (Unix_error 9 ''recv_msg'' [])
   \<and> fst (wrapper_recv_msg linux_lp64 True (kernel_recvmsg (- 1) 9 []) 3 1 0 0)
     \<noteq> Inl (Unix_error 9 ''receive_message'' [])"
  by (simp add: wrapper_recv_msg_def kernel_recvmsg_def recv_msghdr_def to_int_def uerror_def)

end
